theory Spec2Isabelle
  imports Main
begin

section \<open>Python values, errors and character classes\<close>

text \<open>
  The service in \<^verbatim>\<open>tracer_analysis_service.py\<close> works on Python \<^verbatim>\<open>str\<close> values and on
  whatever \<^verbatim>\<open>json.loads\<close> returns. A Python string is modelled as a \<^typ>\<open>string\<close> in which
  every \<^typ>\<open>char\<close> stands for one code point below 256 (the Latin-1 range); strings with
  code points beyond that range are outside the model. The character predicates below are
  the restrictions of \<^verbatim>\<open>str.isspace\<close>, of the class \<^verbatim>\<open>\s\<close> and of the class \<^verbatim>\<open>\w\<close> of the
  module \<^verbatim>\<open>re\<close> (patterns of type \<^verbatim>\<open>str\<close>, no flags) to that range.
\<close>

datatype py_error =
    TypeError
  | AttributeError
  | KeyError string
  | ValueError
  | NotFound string
  | OtherError string

datatype pyval =
    PNone
  | PBool bool
  | PInt int
  | PFloat int int
  | PStr string
  | PList "pyval list"
  | PDict "(string \<times> pyval) list"

fun isinstance_str :: "pyval \<Rightarrow> bool" where
  "isinstance_str (PStr s) = True"
| "isinstance_str v = False"

fun isinstance_list :: "pyval \<Rightarrow> bool" where
  "isinstance_list (PList xs) = True"
| "isinstance_list v = False"

definition isspace :: "char \<Rightarrow> bool" where
  "isspace c =
     (let n = (of_char c :: nat)
      in (9 \<le> n \<and> n \<le> 13) \<or> (28 \<le> n \<and> n \<le> 32) \<or> n = 133 \<or> n = 160)"

definition is_word :: "char \<Rightarrow> bool" where
  "is_word c =
     (let n = (of_char c :: nat)
      in (48 \<le> n \<and> n \<le> 57) \<or> (65 \<le> n \<and> n \<le> 90) \<or> n = 95 \<or> (97 \<le> n \<and> n \<le> 122)
         \<or> n = 170 \<or> (178 \<le> n \<and> n \<le> 179) \<or> n = 181 \<or> (185 \<le> n \<and> n \<le> 186)
         \<or> (188 \<le> n \<and> n \<le> 190) \<or> (192 \<le> n \<and> n \<le> 214) \<or> (216 \<le> n \<and> n \<le> 246)
         \<or> (248 \<le> n \<and> n \<le> 255))"

text \<open>\<^verbatim>\<open>str.lstrip()\<close> and \<^verbatim>\<open>str.strip()\<close> with no argument remove whitespace.\<close>

definition lstrip :: "string \<Rightarrow> string" where
  "lstrip s = dropWhile isspace s"

definition strip :: "string \<Rightarrow> string" where
  "strip s = rev (dropWhile isspace (rev (dropWhile isspace s)))"

section \<open>The fragment of \<^verbatim>\<open>re\<close> that the pattern uses\<close>

text \<open>
  \<^verbatim>\<open>re.match\<close> tries the pattern at position 0 only and accepts any text after the match.
  A backtracking matcher is modelled by the list of the remainders a pattern can leave, in
  the order in which the engine tries them (greedy first). A match exists when that list is
  not empty. The anchor \<^verbatim>\<open>^\<close> holds at position 0 and is left out.
\<close>

datatype cclass = Whitespace | WordChar | NotChar char

fun in_class :: "cclass \<Rightarrow> char \<Rightarrow> bool" where
  "in_class Whitespace c = isspace c"
| "in_class WordChar c = is_word c"
| "in_class (NotChar d) c = (c \<noteq> d)"

datatype regex =
    Lit string
  | Star cclass
  | NotAhead cclass
  | Opt regex
  | Seq regex regex
  | Group regex

fun lit_rest :: "string \<Rightarrow> string \<Rightarrow> string option" where
  "lit_rest [] s = Some s"
| "lit_rest (c # cs) [] = None"
| "lit_rest (c # cs) (d # ds) = (if c = d then lit_rest cs ds else None)"

fun star_rests :: "cclass \<Rightarrow> string \<Rightarrow> string list" where
  "star_rests k [] = [[]]"
| "star_rests k (c # cs) = (if in_class k c then star_rests k cs @ [c # cs] else [c # cs])"

fun rests :: "regex \<Rightarrow> string \<Rightarrow> string list" where
  "rests (Lit w) s = (case lit_rest w s of None \<Rightarrow> [] | Some r \<Rightarrow> [r])"
| "rests (Star k) s = star_rests k s"
| "rests (NotAhead k) s =
     (case s of [] \<Rightarrow> [s] | c # cs \<Rightarrow> if in_class k c then [] else [s])"
| "rests (Opt r) s = rests r s @ [s]"
| "rests (Seq r1 r2) s = concat (map (rests r2) (rests r1 s))"
| "rests (Group r) s = rests r s"

definition re_match :: "regex \<Rightarrow> string \<Rightarrow> bool" where
  "re_match r s = (rests r s \<noteq> [])"

text \<open>
  The pattern of the source,
  \<^verbatim>\<open>rf"^(\s*)({re.escape(target_variable)})(?!\w)\s*(?:<[^>]*>)?\s*"\<close>;
  \<^verbatim>\<open>re.escape\<close> makes the target a literal.
\<close>

definition pattern :: "string \<Rightarrow> regex" where
  "pattern target_variable =
     Seq (Group (Star Whitespace))
    (Seq (Group (Lit target_variable))
    (Seq (NotAhead WordChar)
    (Seq (Star Whitespace)
    (Seq (Opt (Seq (Lit ''<'') (Seq (Star (NotChar (CHR ''>''))) (Lit ''>''))))
         (Star Whitespace)))))"

section \<open>The segment extractor \<^verbatim>\<open>_parse_tracer_output\<close>\<close>

record parse_state =
  result :: "string list"
  target_indent :: "nat option"
  capturing :: bool

datatype flow = Continue parse_state | Break parse_state | Raise py_error

text \<open>
  \<^verbatim>\<open>indent = len(line) - len(line.strip())\<close>: \<^verbatim>\<open>len\<close> raises \<^verbatim>\<open>TypeError\<close> on a value
  without a length, and a list or dict has a length but no method \<^verbatim>\<open>strip\<close>.
\<close>

definition indent_of :: "string \<Rightarrow> nat" where
  "indent_of line = length line - length (strip line)"

fun indent_val :: "pyval \<Rightarrow> py_error + nat" where
  "indent_val (PStr line) = Inr (indent_of line)"
| "indent_val (PList xs) = Inl AttributeError"
| "indent_val (PDict kvs) = Inl AttributeError"
| "indent_val v = Inl TypeError"

fun loop_body :: "regex \<Rightarrow> parse_state \<Rightarrow> pyval \<Rightarrow> flow" where
  "loop_body pat st (PStr line) =
     (let indent = indent_of line;
          match = re_match pat line
      in if match \<and> \<not> capturing st then
           Continue (st\<lparr>target_indent := Some indent, capturing := True,
                        result := result st @ [line]\<rparr>)
         else if capturing st then
           (case target_indent st of
              None \<Rightarrow> Raise TypeError
            | Some ti \<Rightarrow>
                if indent \<le> ti then Break st
                else Continue (st\<lparr>result := result st @ [line]\<rparr>))
         else Continue st)"
| "loop_body pat st v =
     (case indent_val v of Inl e \<Rightarrow> Raise e | Inr indent \<Rightarrow> Raise TypeError)"

fun for_loop :: "regex \<Rightarrow> parse_state \<Rightarrow> pyval list \<Rightarrow> py_error + string list" where
  "for_loop pat st [] = Inr (result st)"
| "for_loop pat st (x # xs) =
     (case loop_body pat st x of
        Raise e \<Rightarrow> Inl e
      | Break st' \<Rightarrow> Inr (result st')
      | Continue st' \<Rightarrow> for_loop pat st' xs)"

definition initial_state :: parse_state where
  "initial_state = \<lparr>result = [], target_indent = None, capturing = False\<rparr>"

fun parse_tracer_output :: "pyval \<Rightarrow> pyval \<Rightarrow> py_error + string list" where
  "parse_tracer_output tracer_output target_variable =
     (if \<not> isinstance_str target_variable then Inr (result initial_state)
      else if \<not> isinstance_list tracer_output then Inr (result initial_state)
      else (case (tracer_output, target_variable) of
              (PList lines, PStr target) \<Rightarrow> for_loop (pattern target) initial_state lines
            | _ \<Rightarrow> Inr (result initial_state)))"

text \<open>A trace whose lines are all strings, as the service's type annotation says.\<close>

definition trace_of :: "string list \<Rightarrow> pyval" where
  "trace_of ls = PList (map PStr ls)"

section \<open>Notions of the specification\<close>

text \<open>
  The specification's indentation depth of a line: the count of its leading whitespace
  characters.
\<close>

definition leading_ws :: "string \<Rightarrow> nat" where
  "leading_ws line = length (takeWhile isspace line)"

text \<open>
  Following the specification's words, two readings of its match predicate on a line
  without its leading whitespace. The prefix reading: the text begins with the target as a
  whole token, not followed by an identifier character. The whole-line reading: moreover
  the text goes on with optional whitespace, an optional bracketed annotation, optional
  whitespace, and nothing else.
\<close>

definition token_boundary :: "string \<Rightarrow> bool" where
  "token_boundary r = (case r of [] \<Rightarrow> True | c # cs \<Rightarrow> \<not> is_word c)"

definition spec_prefix_match :: "string \<Rightarrow> string \<Rightarrow> bool" where
  "spec_prefix_match target line =
     (case lit_rest target (lstrip line) of
        None \<Rightarrow> False
      | Some r \<Rightarrow> token_boundary r)"

definition skip_annotation :: "string \<Rightarrow> string" where
  "skip_annotation r =
     (case r of
        [] \<Rightarrow> r
      | c # cs \<Rightarrow>
          if c = CHR ''<'' \<and> CHR ''>'' \<in> set cs
          then tl (dropWhile (\<lambda>x. x \<noteq> CHR ''>'') cs) else r)"

definition spec_whole_line_match :: "string \<Rightarrow> string \<Rightarrow> bool" where
  "spec_whole_line_match target line =
     (case lit_rest target (lstrip line) of
        None \<Rightarrow> False
      | Some r \<Rightarrow>
          token_boundary r \<and>
          dropWhile isspace (skip_annotation (dropWhile isspace r)) = [])"

text \<open>
  The scan reaches position \<open>i\<close> of the trace when the loop body runs on the element at
  that position: no earlier iteration has left the loop.
\<close>

fun reaches :: "regex \<Rightarrow> parse_state \<Rightarrow> pyval list \<Rightarrow> nat \<Rightarrow> bool" where
  "reaches pat st [] i = False"
| "reaches pat st (x # xs) 0 = True"
| "reaches pat st (x # xs) (Suc i) =
     (case loop_body pat st x of
        Continue st' \<Rightarrow> reaches pat st' xs i
      | Break st' \<Rightarrow> False
      | Raise e \<Rightarrow> False)"

section \<open>Rendering the prompt\<close>

text \<open>
  \<^verbatim>\<open>str(list)\<close> writes the \<^verbatim>\<open>repr\<close> of every element. \<^verbatim>\<open>repr\<close> of a string puts it in
  single quotes, or in double quotes when it has a single quote and no double quote, and
  escapes the quote, the backslash and the characters that are not printable.
\<close>

definition hex_digit :: "nat \<Rightarrow> char" where
  "hex_digit d = (if d < 10 then char_of (48 + d) else char_of (87 + d))"

definition repr_char :: "char \<Rightarrow> char \<Rightarrow> string" where
  "repr_char quote c =
     (let n = (of_char c :: nat)
      in if c = quote then [CHR 0x5C, c]
         else if c = CHR 0x5C then [CHR 0x5C, c]
         else if n = 9 then [CHR 0x5C, CHR ''t'']
         else if n = 10 then [CHR 0x5C, CHR ''n'']
         else if n = 13 then [CHR 0x5C, CHR ''r'']
         else if n < 32 \<or> n = 127 \<or> (128 \<le> n \<and> n \<le> 160) \<or> n = 173
           then [CHR 0x5C, CHR ''x'', hex_digit (n div 16), hex_digit (n mod 16)]
         else [c])"

definition repr_str :: "string \<Rightarrow> string" where
  "repr_str s =
     (let quote = (if CHR 0x27 \<in> set s \<and> CHR 0x22 \<notin> set s then CHR 0x22 else CHR 0x27)
      in quote # concat (map (repr_char quote) s) @ [quote])"

fun join :: "string \<Rightarrow> string list \<Rightarrow> string" where
  "join sep [] = []"
| "join sep [x] = x"
| "join sep (x # y # ys) = x @ sep @ join sep (y # ys)"

definition str_list :: "string list \<Rightarrow> string" where
  "str_list xs = ''['' @ join '', '' (map repr_str xs) @ '']''"

text \<open>
  \<^verbatim>\<open>str.format\<close> with keyword arguments, for replacement fields that are plain names (the
  only kind in the template): a doubled brace is a literal brace, a field is replaced by
  the text of its argument, a name without argument raises \<^verbatim>\<open>KeyError\<close>, a lone brace
  raises \<^verbatim>\<open>ValueError\<close>. The arguments are given as their \<^verbatim>\<open>str\<close>.
\<close>

fun emit :: "string \<Rightarrow> py_error + string \<Rightarrow> py_error + string" where
  "emit v (Inl e) = Inl e"
| "emit v (Inr s) = Inr (v @ s)"

function py_format :: "string \<Rightarrow> (string \<times> string) list \<Rightarrow> py_error + string" where
  "py_format [] kwargs = Inr []"
| "py_format (c # cs) kwargs =
     (if c = CHR ''{'' then
        (if take 1 cs = ''{'' then emit ''{'' (py_format (drop 1 cs) kwargs)
         else if dropWhile (\<lambda>x. x \<noteq> CHR ''}'') cs = [] then Inl ValueError
         else (case map_of kwargs (takeWhile (\<lambda>x. x \<noteq> CHR ''}'') cs) of
                 None \<Rightarrow> Inl (KeyError (takeWhile (\<lambda>x. x \<noteq> CHR ''}'') cs))
               | Some v \<Rightarrow> emit v (py_format (tl (dropWhile (\<lambda>x. x \<noteq> CHR ''}'') cs)) kwargs)))
      else if c = CHR ''}'' then
        (if take 1 cs = ''}'' then emit ''}'' (py_format (drop 1 cs) kwargs)
         else Inl ValueError)
      else emit [c] (py_format cs kwargs))"
  by pat_completeness auto
termination
proof (relation "measure (\<lambda>(t, kwargs). length t)")
  show "wf (measure (\<lambda>(t, kwargs). length t))" by simp
next
  fix c :: char and cs :: string and kwargs :: "(string \<times> string) list" and v :: string
  have "length (dropWhile (\<lambda>x. x \<noteq> CHR ''}'') cs) \<le> length cs"
    by (rule length_dropWhile_le)
  then show "((tl (dropWhile (\<lambda>x. x \<noteq> CHR ''}'') cs), kwargs), c # cs, kwargs)
               \<in> measure (\<lambda>(t, kwargs). length t)"
    by simp
qed simp_all

text \<open>\<^verbatim>\<open>anthropic.HUMAN_PROMPT\<close>, a constant of the Anthropic SDK: two newlines and \<^verbatim>\<open>Human:\<close>.\<close>

definition HUMAN_PROMPT :: string where
  "HUMAN_PROMPT = ''\<newline>\<newline>Human:''"

text \<open>
  The class attribute \<^verbatim>\<open>prompt_template\<close>: the value of the f-string, in which
  \<^verbatim>\<open>{anthropic.HUMAN_PROMPT}\<close> is replaced and the doubled braces have become single ones.
\<close>

definition prompt_template :: string where
  \<open>prompt_template = HUMAN_PROMPT @
     '' You are an AI assistant explaining policy calculations. \<newline>'' @
     ''  The user has run a simulation for the variable '{variable}'.\<newline>'' @
     ''  Here's the tracer output:\<newline>'' @
     ''  {tracer_segment}\<newline>'' @
     ''      \<newline>'' @
     ''  Please explain this result in clear, factual terms. Your explanation should:\<newline>'' @
     ''  1. Briefly describe what {variable} is.\<newline>'' @
     ''  2. Explain the main factors that led to this result.\<newline>'' @
     ''  3. Mention any key thresholds or rules that affected the calculation.\<newline>'' @
     ''  4. If relevant, suggest how changes in input might affect this result.\<newline>'' @
     ''      \<newline>'' @
     ''  Provide only factual explanations of the policy mechanics. Do not include commentary, opinions, quotes, or phrases like "Certainly!" or "Here's an explanation." The response will be rendered as markdown, so preface $ with '' @ [CHR 0x5C] @ ''.''\<close>

definition render_prompt :: "string \<Rightarrow> string list \<Rightarrow> py_error + string" where
  "render_prompt variable tracer_segment =
     py_format prompt_template
       [(''variable'', variable), (''tracer_segment'', str_list tracer_segment)]"

text \<open>The rendered prompt in closed form: the template with its three fields filled in.\<close>

definition prompt_text :: "string \<Rightarrow> string list \<Rightarrow> string" where
  \<open>prompt_text variable tracer_segment = HUMAN_PROMPT @
     '' You are an AI assistant explaining policy calculations. \<newline>'' @
     ''  The user has run a simulation for the variable '' @ [CHR 0x27] @ variable @ [CHR 0x27] @ ''.\<newline>'' @
     ''  Here's the tracer output:\<newline>'' @
     ''  '' @ str_list tracer_segment @ ''\<newline>'' @
     ''      \<newline>'' @
     ''  Please explain this result in clear, factual terms. Your explanation should:\<newline>'' @
     ''  1. Briefly describe what '' @ variable @ '' is.\<newline>'' @
     ''  2. Explain the main factors that led to this result.\<newline>'' @
     ''  3. Mention any key thresholds or rules that affected the calculation.\<newline>'' @
     ''  4. If relevant, suggest how changes in input might affect this result.\<newline>'' @
     ''      \<newline>'' @
     ''  Provide only factual explanations of the policy mechanics. Do not include commentary, opinions, quotes, or phrases like "Certainly!" or "Here's an explanation." The response will be rendered as markdown, so preface $ with '' @ [CHR 0x5C] @ ''.''\<close>

section \<open>The service: \<^verbatim>\<open>get_tracer\<close> and \<^verbatim>\<open>execute_analysis\<close>\<close>

text \<open>
  What a call does to its collaborators is recorded as a list of events, in the order in
  which they happen: the query on the table \<^verbatim>\<open>tracers\<close>, a \<^verbatim>\<open>print\<close> (its fixed text and the
  error whose \<^verbatim>\<open>str\<close> follows it), the call of \<^verbatim>\<open>get_existing_analysis\<close> and the call of
  \<^verbatim>\<open>trigger_ai_analysis\<close>, each with the prompt it is given.
\<close>

datatype event =
    Query string string string string
  | Printed string py_error
  | CacheLookup string
  | Generate string

datatype content = Text string | Chunks "string list"

datatype mode = Static | Streaming

text \<open>
  Modelled from the spec: the collaborators of the service that are not part of the file.
  \<^verbatim>\<open>COUNTRY_PACKAGE_VERSIONS\<close> is the version resolver, a dictionary from country to version.
  \<^verbatim>\<open>tracers\<close> is the trace store: the column \<^verbatim>\<open>tracer_output\<close> of the row with the key
  (household, policy, country, version), if there is one. \<^verbatim>\<open>json_loads\<close> decodes that column.
  \<^verbatim>\<open>get_existing_analysis\<close> is the cache lookup of the parent class \<^verbatim>\<open>AIAnalysisService\<close>,
  from a prompt to an optional text, and \<^verbatim>\<open>trigger_ai_analysis\<close> is its generation backend,
  which returns the chunks of a stream or fails.
\<close>

record world =
  COUNTRY_PACKAGE_VERSIONS :: "string \<rightharpoonup> string"
  tracers :: "string \<times> string \<times> string \<times> string \<rightharpoonup> string"
  json_loads :: "string \<Rightarrow> py_error + pyval"
  get_existing_analysis :: "string \<rightharpoonup> string"
  trigger_ai_analysis :: "string \<Rightarrow> py_error + string list"

definition get_tracer ::
  "world \<Rightarrow> string \<Rightarrow> string \<Rightarrow> string \<Rightarrow> string \<Rightarrow> event list \<times> (py_error + pyval)" where
  "get_tracer w country_id household_id policy_id api_version =
     (case tracers w (household_id, policy_id, country_id, api_version) of
        None \<Rightarrow>
          ([Query household_id policy_id country_id api_version,
            Printed ''Error getting existing tracer analysis: ''
              (NotFound ''No household simulation tracer found'')],
           Inl (NotFound ''No household simulation tracer found''))
      | Some tracer_output \<Rightarrow>
          (case json_loads w tracer_output of
             Inl e \<Rightarrow>
               ([Query household_id policy_id country_id api_version,
                 Printed ''Error getting existing tracer analysis: '' e],
                Inl e)
           | Inr tracer_output_list \<Rightarrow>
               ([Query household_id policy_id country_id api_version],
                Inr tracer_output_list)))"

definition execute_analysis ::
  "world \<Rightarrow> string \<Rightarrow> string \<Rightarrow> string \<Rightarrow> string \<Rightarrow>
     event list \<times> (py_error + content \<times> mode)" where
  "execute_analysis w country_id household_id policy_id variable =
     (case COUNTRY_PACKAGE_VERSIONS w country_id of
        None \<Rightarrow> ([], Inl (KeyError country_id))
      | Some api_version \<Rightarrow>
          (case get_tracer w country_id household_id policy_id api_version of
             (ev, Inl e) \<Rightarrow> (ev, Inl e)
           | (ev, Inr tracer) \<Rightarrow>
               (case parse_tracer_output tracer (PStr variable) of
                  Inl e \<Rightarrow> (ev @ [Printed ''Error parsing tracer output: '' e], Inl e)
                | Inr tracer_segment \<Rightarrow>
                    (case render_prompt variable tracer_segment of
                       Inl e \<Rightarrow> (ev, Inl e)
                     | Inr prompt \<Rightarrow>
                         (case get_existing_analysis w prompt of
                            Some existing_analysis \<Rightarrow>
                              (ev @ [CacheLookup prompt],
                               Inr (Text existing_analysis, Static))
                          | None \<Rightarrow>
                              (case trigger_ai_analysis w prompt of
                                 Inr analysis \<Rightarrow>
                                   (ev @ [CacheLookup prompt, Generate prompt],
                                    Inr (Chunks analysis, Streaming))
                               | Inl e \<Rightarrow>
                                   (ev @ [CacheLookup prompt, Generate prompt,
                                          Printed ''Error generating AI analysis within tracer analysis service: '' e],
                                    Inl e)))))))"

fun is_generate :: "event \<Rightarrow> bool" where
  "is_generate (Generate prompt) = True"
| "is_generate ev = False"

fun is_cache_lookup :: "event \<Rightarrow> bool" where
  "is_cache_lookup (CacheLookup prompt) = True"
| "is_cache_lookup ev = False"

definition backend_calls :: "event list \<Rightarrow> nat" where
  "backend_calls evs = length (filter is_generate evs)"

definition cache_lookups :: "event list \<Rightarrow> nat" where
  "cache_lookups evs = length (filter is_cache_lookup evs)"

text \<open>
  The invariant of the loop in terms of the indentation that the code computes: while
  capturing, the result is not empty, the recorded indentation is the one of its first
  line, and every later line of the result has a greater indentation.
\<close>

definition segment_ok :: "string list \<Rightarrow> bool" where
  "segment_ok seg =
     (case seg of
        [] \<Rightarrow> True
      | first # later \<Rightarrow> list_all (\<lambda>x. indent_of first < indent_of x) later)"

definition state_ok :: "parse_state \<Rightarrow> bool" where
  "state_ok st =
     (if capturing st then
        (case result st of
           [] \<Rightarrow> False
         | first # later \<Rightarrow>
             target_indent st = Some (indent_of first) \<and>
             list_all (\<lambda>x. indent_of first < indent_of x) later)
      else result st = [])"

section \<open>Example worlds\<close>

definition example_trace :: pyval where
  "example_trace =
     trace_of [''value1'', ''  value1.1'', ''  value1.2'', ''    value1.2.1'', ''value2'']"

definition example_segment :: "string list" where
  "example_segment = [''value1'', ''  value1.1'', ''  value1.2'', ''    value1.2.1'']"

text \<open>A world whose cache answers every prompt and whose backend is down.\<close>

definition world_cached :: world where
  "world_cached =
     \<lparr>COUNTRY_PACKAGE_VERSIONS = [''us'' \<mapsto> ''1.0''],
      tracers = [(''h1'', ''p1'', ''us'', ''1.0'') \<mapsto> ''stored''],
      json_loads = (\<lambda>s. Inr example_trace),
      get_existing_analysis = (\<lambda>prompt. Some ''cached explanation''),
      trigger_ai_analysis = (\<lambda>prompt. Inl (OtherError ''backend down''))\<rparr>"

text \<open>
  A world with another country, another key and a longer trace, an empty cache and a
  backend that streams two chunks.
\<close>

definition world_fresh :: world where
  "world_fresh =
     \<lparr>COUNTRY_PACKAGE_VERSIONS = [''uk'' \<mapsto> ''2.3''],
      tracers = [(''h7'', ''p9'', ''uk'', ''2.3'') \<mapsto> ''other''],
      json_loads =
        (\<lambda>s. Inr (trace_of [''value0'', ''value1'', ''  value1.1'', ''  value1.2'',
                                ''    value1.2.1'', ''value2'', ''value3''])),
      get_existing_analysis = Map.empty,
      trigger_ai_analysis = (\<lambda>prompt. Inr [''chunk 1'', ''chunk 2''])\<rparr>"

text \<open>A world that knows the country and holds no trace at all.\<close>

definition world_no_trace :: world where
  "world_no_trace =
     \<lparr>COUNTRY_PACKAGE_VERSIONS = [''us'' \<mapsto> ''1.0''],
      tracers = Map.empty,
      json_loads = (\<lambda>s. Inr example_trace),
      get_existing_analysis = (\<lambda>prompt. Some ''cached explanation''),
      trigger_ai_analysis = (\<lambda>prompt. Inr [''chunk''])\<rparr>"

section \<open>Properties of the pattern\<close>

lemma lit_rest_iff: "lit_rest w s = Some r \<longleftrightarrow> s = w @ r"
  by (induction w s rule: lit_rest.induct) auto

lemma star_rests_nonempty: "star_rests k s \<noteq> []"
  by (induction s) auto

lemma set_star_rests:
  "set (star_rests k s) = {drop j s | j. j \<le> length (takeWhile (in_class k) s)}"
proof (induction s)
  case Nil
  then show ?case by simp
next
  case (Cons c cs)
  show ?case
  proof (cases "in_class k c")
    case True
    have "{drop j (c # cs) | j. j \<le> Suc (length (takeWhile (in_class k) cs))}
        = insert (c # cs) {drop j cs | j. j \<le> length (takeWhile (in_class k) cs)}"
      (is "?L = ?R")
    proof
      show "?L \<subseteq> ?R"
      proof
        fix x assume "x \<in> ?L"
        then obtain j where j: "x = drop j (c # cs)"
          "j \<le> Suc (length (takeWhile (in_class k) cs))"
          by blast
        show "x \<in> ?R"
        proof (cases j)
          case 0
          with j show ?thesis by simp
        next
          case (Suc i)
          with j show ?thesis by auto
        qed
      qed
    next
      show "?R \<subseteq> ?L"
      proof
        fix x assume "x \<in> ?R"
        then consider "x = c # cs"
          | i where "x = drop i cs" "i \<le> length (takeWhile (in_class k) cs)"
          by blast
        then show "x \<in> ?L"
        proof cases
          case 1
          then have "x = drop 0 (c # cs)" by simp
          then show ?thesis by blast
        next
          case 2
          then have "x = drop (Suc i) (c # cs)"
            "Suc i \<le> Suc (length (takeWhile (in_class k) cs))"
            by simp_all
          then show ?thesis by blast
        qed
      qed
    qed
    with True Cons show ?thesis by simp
  next
    case False
    then show ?thesis by auto
  qed
qed

lemma rests_Seq_nonempty:
  "rests (Seq a b) s \<noteq> [] \<longleftrightarrow> (\<exists>r \<in> set (rests a s). rests b r \<noteq> [])"
  by auto

text \<open>
  Everything of the pattern after the lookahead can match the empty text: it never makes
  a match fail.
\<close>

lemma tail_always: "rests (Seq (Star k) (Seq (Opt x) (Star k'))) s \<noteq> []"
proof -
  obtain r where r: "r \<in> set (star_rests k s)"
    using star_rests_nonempty [of k s] by (cases "star_rests k s") auto
  have "rests (Seq (Opt x) (Star k')) r \<noteq> []"
    using star_rests_nonempty by (auto simp: rests_Seq_nonempty)
  with r show ?thesis by (auto simp del: rests.simps(4) simp: rests_Seq_nonempty)
qed

text \<open>
  The pattern matches a line exactly when, after some of the line's leading whitespace,
  the target stands, followed by the end of the line or by a character that is not a word
  character.
\<close>

lemma re_match_pattern:
  "re_match (pattern t) line \<longleftrightarrow>
     (\<exists>j r. j \<le> length (takeWhile isspace line) \<and> drop j line = t @ r \<and> token_boundary r)"
proof -
  let ?tail = "Seq (Star Whitespace)
                (Seq (Opt (Seq (Lit ''<'') (Seq (Star (NotChar (CHR ''>''))) (Lit ''>''))))
                     (Star Whitespace))"
  have ws: "in_class Whitespace = isspace" by (rule ext) simp
  have ahead: "rests (Seq (NotAhead WordChar) ?tail) r \<noteq> [] \<longleftrightarrow> token_boundary r" for r
    using tail_always [of Whitespace _ Whitespace r]
    by (cases r) (simp_all del: rests.simps(2,4,5) add: rests_Seq_nonempty token_boundary_def)
  have lit: "rests (Seq (Group (Lit t)) (Seq (NotAhead WordChar) ?tail)) s \<noteq> [] \<longleftrightarrow>
               (\<exists>r. s = t @ r \<and> token_boundary r)" for s
  proof (cases "lit_rest t s")
    case None
    then have "\<And>r. s \<noteq> t @ r" using lit_rest_iff [of t s] by auto
    with None show ?thesis by simp
  next
    case (Some r)
    then have s: "s = t @ r" by (simp add: lit_rest_iff)
    have "rests (Seq (Group (Lit t)) (Seq (NotAhead WordChar) ?tail)) s
            = rests (Seq (NotAhead WordChar) ?tail) r"
      using Some by simp
    with ahead [of r] s show ?thesis by auto
  qed
  have "re_match (pattern t) line \<longleftrightarrow>
          (\<exists>s \<in> set (star_rests Whitespace line).
             rests (Seq (Group (Lit t)) (Seq (NotAhead WordChar) ?tail)) s \<noteq> [])"
    unfolding re_match_def pattern_def rests_Seq_nonempty [of "Group (Star Whitespace)"]
    by simp
  also have "\<dots> \<longleftrightarrow> (\<exists>j. j \<le> length (takeWhile isspace line) \<and>
       (\<exists>r. drop j line = t @ r \<and> token_boundary r))"
    unfolding lit set_star_rests ws by blast
  finally show ?thesis by blast
qed

lemma re_match_lstrip:
  assumes "t \<noteq> []" and "\<not> isspace (hd t)"
  shows "re_match (pattern t) line \<longleftrightarrow> (\<exists>r. lstrip line = t @ r \<and> token_boundary r)"
proof -
  let ?n = "length (takeWhile isspace line)"
  have only_n: "j = ?n" if j: "j \<le> ?n" and d: "drop j line = t @ r" for j r
  proof (rule ccontr)
    assume "j \<noteq> ?n"
    with j have lt: "j < ?n" by simp
    then have "isspace (takeWhile isspace line ! j)"
      using nth_mem set_takeWhileD by metis
    then have sp: "isspace (line ! j)" using lt by (simp add: takeWhile_nth)
    have "j < length line" using lt length_takeWhile_le [of isspace line] by simp
    then have "hd (drop j line) = line ! j" by (simp add: hd_drop_conv_nth)
    with d assms(1) have "hd t = line ! j" by simp
    with sp assms(2) show False by simp
  qed
  have ls: "lstrip line = drop ?n line"
    by (simp add: lstrip_def dropWhile_eq_drop)
  show ?thesis
  proof
    assume "re_match (pattern t) line"
    then obtain j r where "j \<le> ?n" "drop j line = t @ r" "token_boundary r"
      unfolding re_match_pattern by blast
    with only_n [of j r] ls show "\<exists>r. lstrip line = t @ r \<and> token_boundary r"
      by auto
  next
    assume "\<exists>r. lstrip line = t @ r \<and> token_boundary r"
    then show "re_match (pattern t) line"
      unfolding re_match_pattern ls by blast
  qed
qed

lemma spec_prefix_match_iff:
  "spec_prefix_match t line \<longleftrightarrow> (\<exists>r. lstrip line = t @ r \<and> token_boundary r)"
proof (cases "lit_rest t (lstrip line)")
  case None
  then have "\<And>r. lstrip line \<noteq> t @ r"
    using lit_rest_iff [of t "lstrip line"] by auto
  with None show ?thesis by (simp add: spec_prefix_match_def)
next
  case (Some r)
  then have "lstrip line = t @ r" by (simp add: lit_rest_iff)
  with Some show ?thesis by (simp add: spec_prefix_match_def)
qed

section \<open>Properties of the segment extractor\<close>

lemmas eval_defs =
  trace_of_def initial_state_def pattern_def re_match_def indent_of_def strip_def
  isspace_def is_word_def leading_ws_def

lemma for_loop_no_match:
  "\<not> capturing st \<Longrightarrow> (\<forall>l \<in> set ls. \<not> re_match pat l) \<Longrightarrow>
     for_loop pat st (map PStr ls) = Inr (result st)"
  by (induction ls arbitrary: st) simp_all

lemma loop_body_not_str:
  "\<not> isinstance_str x \<Longrightarrow> loop_body pat st x = Raise TypeError \<or>
     loop_body pat st x = Raise AttributeError"
  by (cases x) simp_all

lemma reaches_raises:
  "reaches pat st xs i \<Longrightarrow> \<not> isinstance_str (xs ! i) \<Longrightarrow>
     for_loop pat st xs = Inl TypeError \<or> for_loop pat st xs = Inl AttributeError"
proof (induction xs arbitrary: st i)
  case Nil
  then show ?case by simp
next
  case (Cons x xs)
  show ?case
  proof (cases i)
    case 0
    with Cons.prems(2) have "\<not> isinstance_str x" by simp
    from loop_body_not_str [OF this, of pat st] show ?thesis by auto
  next
    case (Suc j)
    with Cons.prems(1) obtain st' where st': "loop_body pat st x = Continue st'"
      and r: "reaches pat st' xs j"
      by (cases "loop_body pat st x") simp_all
    from Cons.prems(2) Suc have "\<not> isinstance_str (xs ! j)" by simp
    from Cons.IH [OF r this] st' show ?thesis by simp
  qed
qed

text \<open>
  On a trace of strings the extractor raises nothing, and the segment it returns satisfies
  the invariant for the indentation that the code computes.
\<close>

lemma state_ok_segment_ok: "state_ok st \<Longrightarrow> segment_ok (result st)"
  by (auto simp: state_ok_def segment_ok_def split: if_splits list.splits)

lemma loop_body_ok:
  assumes "state_ok st"
  shows "case loop_body pat st (PStr l) of
           Continue st' \<Rightarrow> state_ok st'
         | Break st' \<Rightarrow> state_ok st'
         | Raise e \<Rightarrow> False"
proof (cases "capturing st")
  case False
  with assms have "result st = []" by (simp add: state_ok_def)
  with False assms show ?thesis by (simp add: state_ok_def Let_def)
next
  case True
  with assms obtain first later where r: "result st = first # later"
    and t: "target_indent st = Some (indent_of first)"
    and a: "list_all (\<lambda>x. indent_of first < indent_of x) later"
    by (auto simp: state_ok_def split: list.splits)
  show ?thesis
  proof (cases "indent_of l \<le> indent_of first")
    case le: True
    with True t assms show ?thesis by (simp add: Let_def)
  next
    case gt: False
    with True r t a show ?thesis by (simp add: Let_def state_ok_def)
  qed
qed

lemma for_loop_ok:
  "state_ok st \<Longrightarrow> \<exists>seg. for_loop pat st (map PStr ls) = Inr seg \<and> segment_ok seg"
proof (induction ls arbitrary: st)
  case Nil
  then show ?case by (simp add: state_ok_segment_ok)
next
  case (Cons l ls)
  from loop_body_ok [OF Cons.prems, of pat l] show ?case
  proof (cases "loop_body pat st (PStr l)")
    case (Continue st')
    with loop_body_ok [OF Cons.prems, of pat l] have "state_ok st'" by simp
    from Cons.IH [OF this] Continue show ?thesis by simp
  next
    case (Break st')
    with loop_body_ok [OF Cons.prems, of pat l] have "state_ok st'" by simp
    with Break show ?thesis by (simp add: state_ok_segment_ok)
  next
    case (Raise e)
    with loop_body_ok [OF Cons.prems, of pat l] show ?thesis by simp
  qed
qed

lemma parse_string_trace_ok:
  "\<exists>seg. parse_tracer_output (trace_of T) (PStr V) = Inr seg \<and> segment_ok seg"
proof -
  have "state_ok initial_state" by (simp add: state_ok_def initial_state_def)
  from for_loop_ok [OF this, of "pattern V" T] show ?thesis by (simp add: trace_of_def)
qed

text \<open>
  The indentation that the code computes is the count of leading whitespace exactly on the
  lines that do not end in whitespace.
\<close>

lemma indent_of_no_trailing:
  assumes "line = [] \<or> \<not> isspace (last line)"
  shows "indent_of line = leading_ws line"
proof (cases "dropWhile isspace line = []")
  case True
  then have all: "\<forall>c \<in> set line. isspace c" by (simp add: dropWhile_eq_Nil_conv)
  have "line = []"
  proof (rule ccontr)
    assume ne: "line \<noteq> []"
    then have "last line \<in> set line" by simp
    with all assms ne show False by blast
  qed
  then show ?thesis by (simp add: indent_of_def strip_def leading_ws_def)
next
  case False
  then have ne: "line \<noteq> []" by auto
  have "last (dropWhile isspace line) = last line"
    using False by (metis last_appendR takeWhile_dropWhile_id)
  with assms ne have "\<not> isspace (last (dropWhile isspace line))" by simp
  then have "\<not> isspace (hd (rev (dropWhile isspace line)))"
    using False by (simp add: hd_rev)
  then have "dropWhile isspace (rev (dropWhile isspace line)) = rev (dropWhile isspace line)"
    using False by (cases "rev (dropWhile isspace line)") simp_all
  then have "strip line = dropWhile isspace line" by (simp add: strip_def)
  moreover have "length line = length (takeWhile isspace line) + length (dropWhile isspace line)"
    by (metis length_append takeWhile_dropWhile_id)
  ultimately show ?thesis by (simp add: indent_of_def leading_ws_def)
qed

text \<open>
  C1. On the trace of the end-to-end example and the target \<open>value1\<close> the extractor returns
  the first four lines: it stops before \<open>value2\<close>, whose depth 0 is not greater than the
  depth 0 of the target line.
\<close>

theorem parse_example_value1:
  "parse_tracer_output
     (trace_of [''value1'', ''  value1.1'', ''  value1.2'', ''    value1.2.1'', ''value2''])
     (PStr ''value1'')
   = Inr [''value1'', ''  value1.1'', ''  value1.2'', ''    value1.2.1'']
   \<and> indent_of ''value1'' = 0 \<and> indent_of ''value2'' = 0"
  by (simp add: eval_defs)

text \<open>
  C2. The claim reads the depth of a line as the count of its leading whitespace
  characters. The extractor computes \<^verbatim>\<open>len(line) - len(line.strip())\<close>, which counts the
  trailing whitespace too, although its comment says that it counts leading spaces. On the
  trace \<open>value1\<close>, \<open>x\<close> followed by three spaces, the second line is captured as deeper
  than the first while both have no leading whitespace at all.
\<close>

theorem trailing_whitespace_counts_as_depth:
  "parse_tracer_output (trace_of [''value1'', ''x   '']) (PStr ''value1'')
     = Inr [''value1'', ''x   '']
   \<and> leading_ws ''value1'' = 0 \<and> leading_ws ''x   '' = 0 \<and> indent_of ''x   '' = 3"
  by (simp add: eval_defs)

text \<open>
  C4, as stated, fails: the line \<open>value1.1\<close> with two leading spaces, a line of the
  specification's own example, is a match for the target \<open>value1\<close>, although text other
  than whitespace and a bracketed annotation follows the target.
\<close>

theorem match_not_whole_line:
  "re_match (pattern ''value1'') ''  value1.1''
   \<and> \<not> spec_whole_line_match ''value1'' ''  value1.1''"
  by (simp add: eval_defs spec_whole_line_match_def lstrip_def token_boundary_def
        skip_annotation_def)

text \<open>
  C4, amended. For a target that is not empty and does not begin with whitespace, a line
  is a match exactly when, after stripping its leading whitespace, it begins with the
  target, not followed by an identifier character; what follows after that does not
  matter. The line \<open>value1 <42>\<close> matches the target \<open>value1\<close>, the segment captured from
  it is the one of the unannotated case, and \<open>rate_adjusted\<close> does not match \<open>rate\<close>.
\<close>

theorem match_is_token_prefix:
  assumes "target \<noteq> []" and "\<not> isspace (hd target)"
  shows "re_match (pattern target) line = spec_prefix_match target line
    \<and> re_match (pattern ''value1'') ''value1 <42>''
    \<and> \<not> re_match (pattern ''rate'') ''rate_adjusted''
    \<and> parse_tracer_output
          (trace_of [''value1 <42>'', ''  value1.1'', ''  value1.2'', ''    value1.2.1'',
                     ''value2''])
          (PStr ''value1'')
        = Inr [''value1 <42>'', ''  value1.1'', ''  value1.2'', ''    value1.2.1'']"
proof -
  have general: "re_match (pattern target) line = spec_prefix_match target line"
    using re_match_lstrip [OF assms] spec_prefix_match_iff by simp
  have annotated: "re_match (pattern ''value1'') ''value1 <42>''"
    by (simp add: eval_defs)
  have longer_name: "\<not> re_match (pattern ''rate'') ''rate_adjusted''"
    by (simp add: eval_defs)
  have captured: "parse_tracer_output
           (trace_of [''value1 <42>'', ''  value1.1'', ''  value1.2'', ''    value1.2.1'',
                      ''value2''])
           (PStr ''value1'')
         = Inr [''value1 <42>'', ''  value1.1'', ''  value1.2'', ''    value1.2.1'']"
    by (simp add: eval_defs)
  from general annotated longer_name captured show ?thesis by blast
qed

theorem match_is_token_prefix_witness:
  "''value1'' \<noteq> [] \<and> \<not> isspace (hd ''value1'')
   \<and> re_match (pattern ''value1'') ''  value1 <42>''
   \<and> spec_prefix_match ''value1'' ''  value1 <42>''"
proof -
  have h1: "''value1'' \<noteq> []" by simp
  have h2: "\<not> isspace (hd ''value1'')" by (simp add: isspace_def)
  have s: "spec_prefix_match ''value1'' ''  value1 <42>''"
    by (simp add: spec_prefix_match_def lstrip_def token_boundary_def eval_defs)
  with match_is_token_prefix [OF h1 h2, of "''  value1 <42>''"]
  have "re_match (pattern ''value1'') ''  value1 <42>''" by blast
  with h1 h2 s show ?thesis by simp
qed

text \<open>
  C5. With the depth of a line read as the count of its leading whitespace characters, the
  trace \<open>a\<close>, \<open>b\<close> followed by two spaces, \<open>c\<close> has the target \<open>a\<close> exactly once and no deeper
  line after it, and yet the extractor returns two lines: the trailing spaces of the
  second line are counted as depth.
\<close>

theorem single_line_segment_fails_with_trailing_whitespace:
  "parse_tracer_output (trace_of [''a'', ''b  '', ''c'']) (PStr ''a'') = Inr [''a'', ''b  '']
   \<and> re_match (pattern ''a'') ''a''
   \<and> \<not> re_match (pattern ''a'') ''b  ''
   \<and> \<not> re_match (pattern ''a'') ''c''
   \<and> leading_ws ''a'' = 0 \<and> leading_ws ''b  '' = 0 \<and> leading_ws ''c'' = 0"
  by (simp add: eval_defs)

text \<open>
  C7. When no line of a trace matches the variable, the extractor returns the empty
  segment.
\<close>

theorem absent_variable_empty_segment:
  assumes "\<forall>l \<in> set T. \<not> re_match (pattern V) l"
  shows "parse_tracer_output (trace_of T) (PStr V) = Inr []"
  using for_loop_no_match [of initial_state T "pattern V"] assms
  by (simp add: trace_of_def initial_state_def)

theorem absent_variable_empty_segment_witness:
  "\<not> re_match (pattern ''value3'') ''value1''
   \<and> \<not> re_match (pattern ''value3'') ''  value1.1''
   \<and> \<not> re_match (pattern ''value3'') ''value2''
   \<and> parse_tracer_output (trace_of [''value1'', ''  value1.1'', ''value2'']) (PStr ''value3'')
       = Inr []"
proof -
  have n1: "\<not> re_match (pattern ''value3'') ''value1''" by (simp add: eval_defs)
  have n2: "\<not> re_match (pattern ''value3'') ''  value1.1''" by (simp add: eval_defs)
  have n3: "\<not> re_match (pattern ''value3'') ''value2''" by (simp add: eval_defs)
  have h: "\<forall>l \<in> set [''value1'', ''  value1.1'', ''value2'']. \<not> re_match (pattern ''value3'') l"
    using n1 n2 n3 by simp
  from absent_variable_empty_segment [OF h] n1 n2 n3 show ?thesis by blast
qed

text \<open>
  C8. When the target is not a string or the trace is not a list, the extractor returns the
  empty segment and raises nothing.
\<close>

theorem malformed_input_empty_segment:
  assumes "\<not> isinstance_str target_variable \<or> \<not> isinstance_list tracer_output"
  shows "parse_tracer_output tracer_output target_variable = Inr []"
  using assms by (auto simp: initial_state_def)

theorem malformed_input_empty_segment_witness:
  "\<not> isinstance_str (PInt 7)
   \<and> parse_tracer_output (PList [PStr ''value1'']) (PInt 7) = Inr []
   \<and> \<not> isinstance_list (PDict [])
   \<and> parse_tracer_output (PDict []) (PStr ''value1'') = Inr []"
proof -
  have n1: "\<not> isinstance_str (PInt 7)" by simp
  have n2: "\<not> isinstance_list (PDict [])" by simp
  have h1: "\<not> isinstance_str (PInt 7) \<or> \<not> isinstance_list (PList [PStr ''value1''])"
    using n1 by simp
  have h2: "\<not> isinstance_str (PStr ''value1'') \<or> \<not> isinstance_list (PDict [])"
    using n2 by simp
  from malformed_input_empty_segment [OF h1] malformed_input_empty_segment [OF h2] n1 n2
  show ?thesis by blast
qed

text \<open>
  C10. When the trace is a list and the scan reaches an element that is not a string, the
  extractor raises an error (\<^verbatim>\<open>TypeError\<close> or \<^verbatim>\<open>AttributeError\<close>) and returns no segment:
  the guard looks at the outer value only.
\<close>

theorem non_string_element_raises:
  assumes "reaches (pattern target) initial_state lines i"
    and "\<not> isinstance_str (lines ! i)"
  shows "parse_tracer_output (PList lines) (PStr target) = Inl TypeError
       \<or> parse_tracer_output (PList lines) (PStr target) = Inl AttributeError"
  using reaches_raises [OF assms] by simp

theorem non_string_element_raises_witness:
  "reaches (pattern ''value1'') initial_state [PStr ''value1'', PNone, PStr ''value2''] 1
   \<and> \<not> isinstance_str ([PStr ''value1'', PNone, PStr ''value2''] ! 1)
   \<and> parse_tracer_output (PList [PStr ''value1'', PNone, PStr ''value2'']) (PStr ''value1'')
       = Inl TypeError
   \<and> parse_tracer_output (PList [PInt 3]) (PStr ''value1'') = Inl TypeError"
proof -
  have h1: "reaches (pattern ''value1'') initial_state
              [PStr ''value1'', PNone, PStr ''value2''] 1"
    by (simp add: eval_defs)
  have h2: "\<not> isinstance_str ([PStr ''value1'', PNone, PStr ''value2''] ! 1)"
    by simp
  have ne: "parse_tracer_output (PList [PStr ''value1'', PNone, PStr ''value2''])
              (PStr ''value1'') \<noteq> Inl AttributeError"
    by (simp add: eval_defs)
  have i3: "parse_tracer_output (PList [PInt 3]) (PStr ''value1'') = Inl TypeError"
    by (simp add: eval_defs)
  from non_string_element_raises [OF h1 h2] ne
  have "parse_tracer_output (PList [PStr ''value1'', PNone, PStr ''value2''])
          (PStr ''value1'') = Inl TypeError"
    by blast
  with h1 h2 i3 show ?thesis by blast
qed

section \<open>Properties of the prompt and of the service\<close>

text \<open>
  Formatting the template never fails, and its result is the closed form: it depends on
  the variable and on the segment only.
\<close>

lemma render_prompt_eq: "render_prompt variable seg = Inr (prompt_text variable seg)"
  by (simp add: render_prompt_def prompt_template_def prompt_text_def HUMAN_PROMPT_def)

lemma get_tracer_events:
  "CacheLookup q \<notin> set (fst (get_tracer w c h p v))"
  "Generate q \<notin> set (fst (get_tracer w c h p v))"
  "filter is_cache_lookup (fst (get_tracer w c h p v)) = []"
  "filter is_generate (fst (get_tracer w c h p v)) = []"
  by (simp_all add: get_tracer_def split: option.splits sum.splits)

text \<open>What a call does once the trace is fetched and the segment is extracted.\<close>

lemma execute_analysis_rendered:
  assumes "COUNTRY_PACKAGE_VERSIONS w c = Some ver"
    and "get_tracer w c h p ver = (ev, Inr tracer)"
    and "parse_tracer_output tracer (PStr v) = Inr seg"
  shows "execute_analysis w c h p v =
     (case get_existing_analysis w (prompt_text v seg) of
        Some existing_analysis \<Rightarrow>
          (ev @ [CacheLookup (prompt_text v seg)], Inr (Text existing_analysis, Static))
      | None \<Rightarrow>
          (case trigger_ai_analysis w (prompt_text v seg) of
             Inr analysis \<Rightarrow>
               (ev @ [CacheLookup (prompt_text v seg), Generate (prompt_text v seg)],
                Inr (Chunks analysis, Streaming))
           | Inl e \<Rightarrow>
               (ev @ [CacheLookup (prompt_text v seg), Generate (prompt_text v seg),
                      Printed ''Error generating AI analysis within tracer analysis service: '' e],
                Inl e)))"
  using assms by (simp add: execute_analysis_def render_prompt_eq)

lemma execute_analysis_cases:
  obtains (unknown_country) "execute_analysis w c h p v = ([], Inl (KeyError c))"
  | (no_tracer) ver e where "COUNTRY_PACKAGE_VERSIONS w c = Some ver"
      "execute_analysis w c h p v = (fst (get_tracer w c h p ver), Inl e)"
  | (parse_error) ver e where "COUNTRY_PACKAGE_VERSIONS w c = Some ver"
      "execute_analysis w c h p v =
         (fst (get_tracer w c h p ver) @ [Printed ''Error parsing tracer output: '' e], Inl e)"
  | (rendered) ver tracer seg where "COUNTRY_PACKAGE_VERSIONS w c = Some ver"
      "get_tracer w c h p ver = (fst (get_tracer w c h p ver), Inr tracer)"
      "parse_tracer_output tracer (PStr v) = Inr seg"
proof (cases "COUNTRY_PACKAGE_VERSIONS w c")
  case None
  then have "execute_analysis w c h p v = ([], Inl (KeyError c))"
    by (simp add: execute_analysis_def)
  then show ?thesis by (rule unknown_country)
next
  case (Some ver)
  obtain ev r where g: "get_tracer w c h p ver = (ev, r)" by (cases "get_tracer w c h p ver")
  show ?thesis
  proof (cases r)
    case (Inl e)
    with Some g have "execute_analysis w c h p v = (fst (get_tracer w c h p ver), Inl e)"
      by (simp add: execute_analysis_def)
    with Some show ?thesis by (rule no_tracer)
  next
    case (Inr tracer)
    show ?thesis
    proof (cases "parse_tracer_output tracer (PStr v)")
      case (Inl e)
      with Some g Inr have "execute_analysis w c h p v =
         (fst (get_tracer w c h p ver) @ [Printed ''Error parsing tracer output: '' e], Inl e)"
        by (simp add: execute_analysis_def)
      with Some show ?thesis by (rule parse_error)
    next
      case seg: (Inr seg)
      from g Inr have "get_tracer w c h p ver = (fst (get_tracer w c h p ver), Inr tracer)"
        by simp
      with Some show ?thesis using seg by (rule rendered)
    qed
  qed
qed

text \<open>
  C3. When the prompt that a call looks up is in the cache, the call returns the cached
  text with mode static, and the generation backend is not invoked.
\<close>

theorem cache_hit_returns_static:
  assumes "CacheLookup prompt \<in> set (fst (execute_analysis w c h p v))"
    and "get_existing_analysis w prompt = Some text"
  shows "snd (execute_analysis w c h p v) = Inr (Text text, Static)
       \<and> backend_calls (fst (execute_analysis w c h p v)) = 0"
proof (cases rule: execute_analysis_cases [of w c h p v])
  case unknown_country
  with assms(1) show ?thesis by simp
next
  case (no_tracer ver e)
  with assms(1) get_tracer_events(1) [of prompt w c h p ver] show ?thesis by simp
next
  case (parse_error ver e)
  with assms(1) get_tracer_events(1) [of prompt w c h p ver] show ?thesis by simp
next
  case (rendered ver tracer seg)
  note eq = execute_analysis_rendered [OF rendered]
  have p: "prompt = prompt_text v seg"
    using assms(1) get_tracer_events(1) [of prompt w c h p ver]
    unfolding eq by (auto split: option.splits sum.splits)
  with assms(2) eq get_tracer_events(4) [of w c h p ver] show ?thesis
    by (simp add: backend_calls_def)
qed

theorem cache_hit_returns_static_witness:
  "CacheLookup (prompt_text ''value1'' example_segment)
     \<in> set (fst (execute_analysis world_cached ''us'' ''h1'' ''p1'' ''value1''))
   \<and> get_existing_analysis world_cached (prompt_text ''value1'' example_segment)
       = Some ''cached explanation''
   \<and> snd (execute_analysis world_cached ''us'' ''h1'' ''p1'' ''value1'')
       = Inr (Text ''cached explanation'', Static)
   \<and> backend_calls (fst (execute_analysis world_cached ''us'' ''h1'' ''p1'' ''value1'')) = 0"
proof -
  have seg: "parse_tracer_output example_trace (PStr ''value1'') = Inr example_segment"
    by (simp add: example_trace_def example_segment_def eval_defs)
  have h1: "CacheLookup (prompt_text ''value1'' example_segment)
              \<in> set (fst (execute_analysis world_cached ''us'' ''h1'' ''p1'' ''value1''))"
    by (simp add: execute_analysis_def get_tracer_def world_cached_def seg render_prompt_eq
          del: parse_tracer_output.simps)
  have h2: "get_existing_analysis world_cached (prompt_text ''value1'' example_segment)
              = Some ''cached explanation''"
    by (simp add: world_cached_def)
  from cache_hit_returns_static [OF h1 h2] h1 h2 show ?thesis by blast
qed

text \<open>
  C6. When the country is known and the trace store has no record under the key, the call
  fails with the not-found error that \<^verbatim>\<open>get_tracer\<close> raised, unchanged, and neither the cache
  nor the generation backend is consulted.
\<close>

theorem missing_trace_not_found:
  assumes "COUNTRY_PACKAGE_VERSIONS w country_id = Some api_version"
    and "tracers w (household_id, policy_id, country_id, api_version) = None"
  shows "snd (execute_analysis w country_id household_id policy_id variable)
           = Inl (NotFound ''No household simulation tracer found'')
       \<and> snd (get_tracer w country_id household_id policy_id api_version)
           = Inl (NotFound ''No household simulation tracer found'')
       \<and> cache_lookups (fst (execute_analysis w country_id household_id policy_id variable)) = 0
       \<and> backend_calls (fst (execute_analysis w country_id household_id policy_id variable)) = 0"
  using assms
  by (simp add: execute_analysis_def get_tracer_def cache_lookups_def backend_calls_def)

theorem missing_trace_not_found_witness:
  "COUNTRY_PACKAGE_VERSIONS world_no_trace ''us'' = Some ''1.0''
   \<and> tracers world_no_trace (''h1'', ''p1'', ''us'', ''1.0'') = None
   \<and> snd (execute_analysis world_no_trace ''us'' ''h1'' ''p1'' ''value1'')
       = Inl (NotFound ''No household simulation tracer found'')
   \<and> cache_lookups (fst (execute_analysis world_no_trace ''us'' ''h1'' ''p1'' ''value1'')) = 0
   \<and> backend_calls (fst (execute_analysis world_no_trace ''us'' ''h1'' ''p1'' ''value1'')) = 0"
proof -
  have h1: "COUNTRY_PACKAGE_VERSIONS world_no_trace ''us'' = Some ''1.0''"
    by (simp add: world_no_trace_def)
  have h2: "tracers world_no_trace (''h1'', ''p1'', ''us'', ''1.0'') = None"
    by (simp add: world_no_trace_def)
  from missing_trace_not_found [OF h1 h2, of "''value1''"] h1 h2 show ?thesis by blast
qed

text \<open>
  C9. Two calls, in any two worlds and for any two keys, that extract the same segment for
  the same variable render the same prompt, character by character: each looks up exactly
  the closed form of the template for that variable and that segment.
\<close>

theorem prompt_rendering_deterministic:
  assumes "COUNTRY_PACKAGE_VERSIONS w1 c1 = Some ver1"
    and "get_tracer w1 c1 h1 p1 ver1 = (ev1, Inr tracer1)"
    and "parse_tracer_output tracer1 (PStr variable) = Inr segment"
    and "COUNTRY_PACKAGE_VERSIONS w2 c2 = Some ver2"
    and "get_tracer w2 c2 h2 p2 ver2 = (ev2, Inr tracer2)"
    and "parse_tracer_output tracer2 (PStr variable) = Inr segment"
  shows "filter is_cache_lookup (fst (execute_analysis w1 c1 h1 p1 variable))
           = [CacheLookup (prompt_text variable segment)]
       \<and> filter is_cache_lookup (fst (execute_analysis w2 c2 h2 p2 variable))
           = [CacheLookup (prompt_text variable segment)]
       \<and> render_prompt variable segment = Inr (prompt_text variable segment)"
proof -
  have one: "filter is_cache_lookup (fst (execute_analysis w c h p variable))
               = [CacheLookup (prompt_text variable segment)]"
    if "COUNTRY_PACKAGE_VERSIONS w c = Some ver"
      and g: "get_tracer w c h p ver = (ev, Inr tracer)"
      and "parse_tracer_output tracer (PStr variable) = Inr segment"
    for w c h p ver ev tracer
  proof -
    have "filter is_cache_lookup ev = []"
      using get_tracer_events(3) [of w c h p ver] g by simp
    then show ?thesis
      unfolding execute_analysis_rendered [OF that]
      by (simp split: option.splits sum.splits)
  qed
  from one [OF assms(1-3)] one [OF assms(4-6)] render_prompt_eq show ?thesis by blast
qed

theorem prompt_rendering_deterministic_witness:
  "COUNTRY_PACKAGE_VERSIONS world_cached ''us'' = Some ''1.0''
   \<and> snd (get_tracer world_cached ''us'' ''h1'' ''p1'' ''1.0'') = Inr example_trace
   \<and> parse_tracer_output example_trace (PStr ''value1'') = Inr example_segment
   \<and> COUNTRY_PACKAGE_VERSIONS world_fresh ''uk'' = Some ''2.3''
   \<and> parse_tracer_output
        (trace_of [''value0'', ''value1'', ''  value1.1'', ''  value1.2'', ''    value1.2.1'',
                   ''value2'', ''value3''])
        (PStr ''value1'') = Inr example_segment
   \<and> filter is_cache_lookup (fst (execute_analysis world_cached ''us'' ''h1'' ''p1'' ''value1''))
       = [CacheLookup (prompt_text ''value1'' example_segment)]
   \<and> filter is_cache_lookup (fst (execute_analysis world_fresh ''uk'' ''h7'' ''p9'' ''value1''))
       = [CacheLookup (prompt_text ''value1'' example_segment)]"
proof -
  have a1: "COUNTRY_PACKAGE_VERSIONS world_cached ''us'' = Some ''1.0''"
    by (simp add: world_cached_def)
  have a2: "get_tracer world_cached ''us'' ''h1'' ''p1'' ''1.0''
              = ([Query ''h1'' ''p1'' ''us'' ''1.0''], Inr example_trace)"
    by (simp add: get_tracer_def world_cached_def)
  have a3: "parse_tracer_output example_trace (PStr ''value1'') = Inr example_segment"
    by (simp add: example_trace_def example_segment_def eval_defs)
  have b1: "COUNTRY_PACKAGE_VERSIONS world_fresh ''uk'' = Some ''2.3''"
    by (simp add: world_fresh_def)
  have b2: "get_tracer world_fresh ''uk'' ''h7'' ''p9'' ''2.3''
              = ([Query ''h7'' ''p9'' ''uk'' ''2.3''],
                 Inr (trace_of [''value0'', ''value1'', ''  value1.1'', ''  value1.2'',
                                ''    value1.2.1'', ''value2'', ''value3'']))"
    by (simp add: get_tracer_def world_fresh_def)
  have b3: "parse_tracer_output
        (trace_of [''value0'', ''value1'', ''  value1.1'', ''  value1.2'', ''    value1.2.1'',
                   ''value2'', ''value3''])
        (PStr ''value1'') = Inr example_segment"
    by (simp add: example_segment_def eval_defs)
  from prompt_rendering_deterministic [OF a1 a2 a3 b1 b2 b3] a1 a2 a3 b1 b3
  show ?thesis by simp
qed

end
